theory Spec2Isabelle
  imports Main "HOL-Library.Sublist"
begin

section \<open>Python values used by the configuration\<close>

text \<open>
  \<^verbatim>\<open>os.environ.get(name, default)\<close> returns the default when the variable is unset and
  the variable's text otherwise, so a configuration constant is an \<open>int\<close>, a \<open>bool\<close> or
  a \<open>str\<close> at run time, whatever its annotation says. The three shapes are kept apart.
\<close>

datatype pyval = PyInt int | PyStr string | PyBool bool

type_synonym environ = "string \<rightharpoonup> string"

datatype exc =
    ClientConnectorError | ClientResponseError | ContentTypeError | ServerTimeoutError
  | TimeoutError | ServerDisconnectedError | ClientOSError | ClientPayloadError
  | UnicodeDecodeError | InvalidURL | JSONDecodeError | TypeError | OSError

text \<open>What a \<^verbatim>\<open>raise\<close> carries to the top level: an \<open>Exception\<close>, or the \<open>SystemExit\<close>
  of \<open>argparse\<close>, which is a \<open>BaseException\<close> only.\<close>

datatype raised = Error exc | SystemExit nat

text \<open>Truth value of an object, as \<^verbatim>\<open>while x:\<close> and \<^verbatim>\<open>filter(None, xs)\<close> test it.\<close>

fun py_truthy :: "pyval \<Rightarrow> bool" where
  "py_truthy (PyInt n) = (n \<noteq> 0)"
| "py_truthy (PyStr s) = (s \<noteq> [])"
| "py_truthy (PyBool b) = b"

text \<open>Binary \<open>-\<close> and \<open>+\<close>. A \<open>bool\<close> counts as the integer 0 or 1; \<open>str - x\<close> and
  the mixed cases raise \<open>TypeError\<close>; \<open>str + str\<close> concatenates.\<close>

fun py_num :: "pyval \<Rightarrow> int option" where
  "py_num (PyInt n) = Some n"
| "py_num (PyBool b) = Some (if b then 1 else 0)"
| "py_num (PyStr s) = None"

definition py_sub :: "pyval \<Rightarrow> pyval \<Rightarrow> exc + pyval" where
  "py_sub a b =
     (case (py_num a, py_num b) of
        (Some x, Some y) \<Rightarrow> Inr (PyInt (x - y))
      | _ \<Rightarrow> Inl TypeError)"

definition py_add :: "pyval \<Rightarrow> pyval \<Rightarrow> exc + pyval" where
  "py_add a b =
     (case (a, b) of
        (PyStr s, PyStr t) \<Rightarrow> Inr (PyStr (s @ t))
      | _ \<Rightarrow> (case (py_num a, py_num b) of
                (Some x, Some y) \<Rightarrow> Inr (PyInt (x + y))
              | _ \<Rightarrow> Inl TypeError))"

text \<open>\<^verbatim>\<open>str(i)\<close> of a non-negative integer, as an f-string renders \<^verbatim>\<open>{i}\<close>.\<close>

function py_str :: "nat \<Rightarrow> string" where
  "py_str n =
     (if n < 10 then [''0123456789'' ! n]
      else py_str (n div 10) @ [''0123456789'' ! (n mod 10)])"
  by pat_completeness auto
termination
  by (relation "measure id") auto

declare py_str.simps [simp del]

section \<open>constants.py\<close>

text \<open>\<^verbatim>\<open>re.sub(r'^https?://', '', url)\<close>: the pattern is anchored at the start of the
  string, so at most one occurrence, the leading one, is removed.\<close>

definition strip_scheme :: "string \<Rightarrow> string" where
  "strip_scheme u =
     (if take 8 u = ''https://'' then drop 8 u
      else if take 7 u = ''http://'' then drop 7 u
      else u)"

definition targets_to_check :: "string \<Rightarrow> string list" where
  "targets_to_check target =
     [ target @ ''/blog/wp-json/wp/v2/users'',
       target @ ''/blog/?rest_route=/wp/v2/users'',
       target @ ''/wp-json/wp/v2/users'',
       target @ ''/section/news?rest_route=/wp/v2/users'',
       target @ ''/section/news?rest_route=/wp/v2/usErs'' ]
     @ map (\<lambda>i. ''/wp-json/wp/v2/users/'' @ py_str i) [1..<1000]
     @ [ target @ ''/wp-json/wp/v2/users?search=admin@'' @ strip_scheme target ]"

text \<open>The class \<open>Config\<close>. The three constants read from the environment are functions of it.\<close>

definition TIMEOUT_DEFAULT :: int where
  "TIMEOUT_DEFAULT = 60"

definition LIMIT_OF_ATTEMPTS_TO_RETRY :: "environ \<Rightarrow> pyval" where
  "LIMIT_OF_ATTEMPTS_TO_RETRY env =
     (case env ''LIMIT_OF_ATTEMPTS_TO_RETRY'' of None \<Rightarrow> PyInt 5 | Some s \<Rightarrow> PyStr s)"

definition SIMULTANEOUS_CONCURRENT_TASKS :: nat where
  "SIMULTANEOUS_CONCURRENT_TASKS = 51"

definition REQUESTS_RETRIES_NUM_TO_REMOVE :: int where
  "REQUESTS_RETRIES_NUM_TO_REMOVE = 1"

definition ERRORS_STATUS_CODES :: "int list" where
  "ERRORS_STATUS_CODES = [400, 403, 404, 500]"

definition DEFAULT_DEBUGGING :: "environ \<Rightarrow> pyval" where
  "DEFAULT_DEBUGGING env =
     (case env ''DEFAULT_DEBUGGING'' of None \<Rightarrow> PyBool False | Some s \<Rightarrow> PyStr s)"

definition RESULT_FILE_NAME :: "environ \<Rightarrow> string" where
  "RESULT_FILE_NAME env =
     (case env ''RESULT_FILE_NAME'' of None \<Rightarrow> ''results.json'' | Some s \<Rightarrow> s)"

section \<open>The network, as the request manager sees it\<close>

text \<open>
  The exception classes are those of \<open>aiohttp\<close>, \<open>asyncio\<close> and the standard library
  that the code names or that its calls can raise. An \<^verbatim>\<open>except\<close> clause catches a class
  and its subclasses; \<open>exc_ancestors\<close> lists, for each class, its proper ancestors among
  the modelled ones (\<open>ContentTypeError\<close> derives from \<open>ClientResponseError\<close>,
  \<open>ClientConnectorError\<close> from \<open>ClientOSError\<close>, which derives from \<open>OSError\<close>, and
  \<open>ServerTimeoutError\<close> from the asyncio \<open>TimeoutError\<close>).
\<close>

fun exc_ancestors :: "exc \<Rightarrow> exc list" where
  "exc_ancestors ContentTypeError = [ClientResponseError]"
| "exc_ancestors ClientConnectorError = [ClientOSError, OSError]"
| "exc_ancestors ClientOSError = [OSError]"
| "exc_ancestors ServerTimeoutError = [TimeoutError]"
| "exc_ancestors e = []"

definition caught_by :: "exc \<Rightarrow> exc list \<Rightarrow> bool" where
  "caught_by e classes = (\<exists>c \<in> set (e # exc_ancestors e). c \<in> set classes)"

text \<open>A decoded JSON document (\<^verbatim>\<open>await response.json()\<close>).\<close>

datatype json =
    JNull | JBool bool | JNum int | JStr string | JArr "json list" | JObj "(string \<times> json) list"

text \<open>
  One pass through \<^verbatim>\<open>async with session.get(url, headers=...) as response\<close>: the GET
  raises, or it completes with a status; the body is read, and decoded, only when the
  code asks for it, and that read can raise as well.
\<close>

datatype json_result = JsonOk json | JsonRaises exc

datatype attempt = GetRaises exc | Response int json_result

text \<open>The behaviour of the network towards one worker: the reply to its k-th GET.\<close>

type_synonym replies = "nat \<Rightarrow> attempt"

section \<open>request\_manager.py\<close>

text \<open>The dictionary \<^verbatim>\<open>{'url': ..., 'status_code': ..., 'body': ...}\<close> that \<open>_fetch\<close>
  returns. A worker that returns nothing returns \<open>None\<close>: the empty marker. A URL is kept
  as the text it was built from: \<^verbatim>\<open>str(URL(u))\<close> is taken to be \<open>u\<close>.\<close>

record probe_outcome =
  url :: string
  status_code :: int
  body :: json

text \<open>How one pass through the body of the \<^verbatim>\<open>while\<close> loop ends.\<close>

datatype flow = Continue pyval | Return probe_outcome | Break | Raise exc

text \<open>
  The two \<^verbatim>\<open>except\<close> clauses, tried in the order of the source. In the first one the
  subtraction \<^verbatim>\<open>Config.LIMIT_OF_ATTEMPTS_TO_RETRY - left_of_attempts_to_retry\<close> comes
  before the counter is touched, so a \<open>TypeError\<close> raised there leaves the handler with
  the counter unchanged. The setter of \<open>failed_requests_num\<close> adds its argument.
\<close>

definition retry_classes :: "exc list" where
  "retry_classes = [ClientConnectorError, ClientResponseError, ServerTimeoutError,
                    TimeoutError, ServerDisconnectedError, ClientOSError]"

definition abort_classes :: "exc list" where
  "abort_classes = [UnicodeDecodeError, InvalidURL]"

definition except_handler :: "environ \<Rightarrow> pyval \<Rightarrow> int \<Rightarrow> exc \<Rightarrow> flow \<times> int" where
  "except_handler env left failed e =
     (if caught_by e retry_classes then
        (case py_sub (LIMIT_OF_ATTEMPTS_TO_RETRY env) left of
           Inl err \<Rightarrow> (Raise err, failed)
         | Inr d \<Rightarrow>
            (case py_add d (PyInt REQUESTS_RETRIES_NUM_TO_REMOVE) of
               Inl err \<Rightarrow> (Raise err, failed)
             | Inr attempts \<Rightarrow>
                (case py_sub left (PyInt REQUESTS_RETRIES_NUM_TO_REMOVE) of
                   Inl err \<Rightarrow> (Raise err, failed)
                 | Inr left' \<Rightarrow> (Continue left', failed + REQUESTS_RETRIES_NUM_TO_REMOVE))))
      else if caught_by e abort_classes then (Break, failed)
      else (Raise e, failed))"

definition fetch_iteration :: "environ \<Rightarrow> string \<Rightarrow> pyval \<Rightarrow> int \<Rightarrow> attempt \<Rightarrow> flow \<times> int" where
  "fetch_iteration env u left failed a =
     (case a of
        GetRaises e \<Rightarrow> except_handler env left failed e
      | Response status j \<Rightarrow>
          if status \<notin> set ERRORS_STATUS_CODES then
            (case j of
               JsonOk b \<Rightarrow> (Return \<lparr>url = u, status_code = status, body = b\<rparr>, failed)
             | JsonRaises e \<Rightarrow> except_handler env left failed e)
          else (Break, failed))"

text \<open>The replies that take the first \<^verbatim>\<open>except\<close> clause: the GET raised one of its
  classes, or the status was no error status and reading the body raised one.\<close>

definition retried :: "attempt \<Rightarrow> bool" where
  "retried a =
     (case a of
        GetRaises e \<Rightarrow> caught_by e retry_classes
      | Response status j \<Rightarrow>
          status \<notin> set ERRORS_STATUS_CODES \<and>
          (case j of JsonOk b \<Rightarrow> False | JsonRaises e \<Rightarrow> caught_by e retry_classes))"

text \<open>The replies the loop deals with by itself: a status, with a body that decodes
  when it is read, or an exception that one of the two \<^verbatim>\<open>except\<close> clauses catches.\<close>

definition handled :: "attempt \<Rightarrow> bool" where
  "handled a =
     (case a of
        GetRaises e \<Rightarrow> caught_by e retry_classes \<or> caught_by e abort_classes
      | Response status j \<Rightarrow>
          status \<in> set ERRORS_STATUS_CODES \<or>
          (case j of
             JsonOk b \<Rightarrow> True
           | JsonRaises e \<Rightarrow> caught_by e retry_classes \<or> caught_by e abort_classes))"

text \<open>
  The \<^verbatim>\<open>while left_of_attempts_to_retry:\<close> loop. \<open>k\<close> counts the GETs issued so far.
  The result is what \<open>_fetch\<close> returns or raises, the number of GETs it issued, and the
  counter \<open>_failed_requests_num\<close> afterwards. Nothing bounds the loop from inside (a
  negative budget never reaches zero), so not returning is a value: \<open>None\<close>.
\<close>

partial_function (option) fetch_loop ::
  "environ \<Rightarrow> string \<Rightarrow> replies \<Rightarrow> pyval \<Rightarrow> nat \<Rightarrow> int
     \<Rightarrow> ((exc + probe_outcome option) \<times> nat \<times> int) option" where
  "fetch_loop env u net left k failed =
     (if py_truthy left then
        (case fetch_iteration env u left failed (net k) of
           (Continue left', failed') \<Rightarrow> fetch_loop env u net left' (Suc k) failed'
         | (Return r, failed') \<Rightarrow> Some (Inr (Some r), Suc k, failed')
         | (Break, failed') \<Rightarrow> Some (Inr None, Suc k, failed')
         | (Raise e, failed') \<Rightarrow> Some (Inl e, Suc k, failed'))
      else Some (Inr None, k, failed))"

definition fetch ::
  "environ \<Rightarrow> string \<Rightarrow> replies \<Rightarrow> int \<Rightarrow> ((exc + probe_outcome option) \<times> nat \<times> int) option" where
  "fetch env u net failed = fetch_loop env u net (LIMIT_OF_ATTEMPTS_TO_RETRY env) 0 failed"

text \<open>By how much one worker, run on its own from a counter of 0, raises the counter.\<close>

definition increments :: "environ \<Rightarrow> string \<Rightarrow> replies \<Rightarrow> int" where
  "increments env u net = (case fetch env u net 0 of None \<Rightarrow> 0 | Some (r, k, d) \<Rightarrow> d)"

text \<open>
  \<open>make_requests\<close> creates one task per URL and gathers them. The tasks share only the
  counter, which each of them only adds to, so they are run here one after the other, in
  the order of the list; \<open>net i\<close> is the network's behaviour towards the task of the i-th
  URL. \<open>asyncio.gather\<close> returns the tasks' values in the order the tasks were given, and
  raises instead when a task raised (the exception of the task that failed first in time;
  the model reports the first in list order, and no statement below depends on which).
\<close>

fun run_tasks ::
  "environ \<Rightarrow> (nat \<Rightarrow> replies) \<Rightarrow> nat \<Rightarrow> string list \<Rightarrow> int
     \<Rightarrow> ((exc + probe_outcome option) list \<times> int) option" where
  "run_tasks env net i [] failed = Some ([], failed)"
| "run_tasks env net i (u # us) failed =
     (case fetch env u (net i) failed of
        None \<Rightarrow> None
      | Some (r, k, failed') \<Rightarrow>
          (case run_tasks env net (Suc i) us failed' of
             None \<Rightarrow> None
           | Some (rs, failed'') \<Rightarrow> Some (r # rs, failed'')))"

fun gather :: "(exc + 'a) list \<Rightarrow> exc + 'a list" where
  "gather [] = Inr []"
| "gather (Inl e # rs) = Inl e"
| "gather (Inr v # rs) = (case gather rs of Inl e \<Rightarrow> Inl e | Inr vs \<Rightarrow> Inr (v # vs))"

definition make_requests ::
  "environ \<Rightarrow> string list \<Rightarrow> (nat \<Rightarrow> replies) \<Rightarrow> int
     \<Rightarrow> ((exc + probe_outcome option list) \<times> int) option" where
  "make_requests env urls net failed =
     (case run_tasks env net 0 urls failed of
        None \<Rightarrow> None
      | Some (rs, failed') \<Rightarrow> Some (gather rs, failed'))"

text \<open>\<open>create_make_requests\<close> builds the manager (counter 0) and passes on what
  \<open>make_requests\<close> returns or raises.\<close>

definition create_make_requests ::
  "environ \<Rightarrow> string list \<Rightarrow> (nat \<Rightarrow> replies) \<Rightarrow> (exc + probe_outcome option list) option" where
  "create_make_requests env urls net = map_option fst (make_requests env urls net 0)"

text \<open>The reply to the single HTTPS probe: it raises, or it answers, with headers or
  with none.\<close>

datatype probe_reply = ProbeRaises exc | ProbeHeaders bool

definition probe_target_schema :: "probe_reply \<Rightarrow> exc + string" where
  "probe_target_schema r =
     (case r of
        ProbeHeaders nonempty \<Rightarrow> Inr (if nonempty then ''https'' else ''http'')
      | ProbeRaises e \<Rightarrow> if caught_by e [ClientConnectorError] then Inr ''http'' else Inl e)"

section \<open>logins\_finder.py\<close>

text \<open>
  The command line, after \<open>argparse\<close> has split it: which of the three options were
  given. \<open>cli\<close> applies the declarations of the parser: \<open>--domain\<close> is required (without it
  \<open>argparse\<close> exits with status 2), \<open>--verbose\<close> stores \<open>True\<close> and defaults to
  \<open>Config.DEFAULT_DEBUGGING\<close>, \<open>--output\<close> defaults to \<open>Config.RESULT_FILE_NAME\<close>.
\<close>

record cmdline =
  given_domain :: "string option"
  given_verbose :: bool
  given_output :: "string option"

record namespace =
  arg_domain :: string
  arg_verbose :: pyval
  arg_output :: string

text \<open>\<open>RunConfig\<close>, with its fields \<open>domain\<close>, \<open>verbose\<close> and \<open>output\<close>.\<close>

record run_config =
  cfg_domain :: string
  cfg_verbose :: pyval
  cfg_output :: string

definition cli :: "environ \<Rightarrow> cmdline \<Rightarrow> raised + namespace" where
  "cli env argv =
     (case given_domain argv of
        None \<Rightarrow> Inl (SystemExit 2)
      | Some d \<Rightarrow>
          Inr \<lparr> arg_domain = d,
                arg_verbose = (if given_verbose argv then PyBool True else DEFAULT_DEBUGGING env),
                arg_output = (case given_output argv of
                                None \<Rightarrow> RESULT_FILE_NAME env | Some p \<Rightarrow> p) \<rparr>)"

definition define_config_from_cmd :: "namespace \<Rightarrow> run_config" where
  "define_config_from_cmd parsed_args =
     \<lparr> cfg_domain = arg_domain parsed_args,
       cfg_verbose = arg_verbose parsed_args,
       cfg_output = arg_output parsed_args \<rparr>"

text \<open>
  The file system: the content of each file, and whether \<^verbatim>\<open>open(path, 'w')\<close> succeeds.
  A result file holds the text \<open>json.dumps\<close> made; it is kept as the JSON document that
  text denotes. \<open>json_dumps\<close> of a list of dictionaries is an array of objects, each with
  the keys of its dictionary in insertion order.
\<close>

record filesystem =
  files :: "string \<rightharpoonup> json"
  can_open_w :: "string \<Rightarrow> bool"

definition json_dumps :: "probe_outcome list \<Rightarrow> json" where
  "json_dumps results =
     JArr (map (\<lambda>r. JObj [(''url'', JStr (url r)),
                           (''status_code'', JNum (status_code r)),
                           (''body'', body r)]) results)"

definition write_results_to_file ::
  "environ \<Rightarrow> probe_outcome list \<Rightarrow> filesystem \<Rightarrow> exc + filesystem" where
  "write_results_to_file env results fs =
     (if can_open_w fs (RESULT_FILE_NAME env)
      then Inr (fs\<lparr>files := (files fs)(RESULT_FILE_NAME env \<mapsto> json_dumps results)\<rparr>)
      else Inl OSError)"

text \<open>\<^verbatim>\<open>list(filter(None, results))\<close> keeps the true elements: \<open>None\<close> is false, and a
  dictionary with its three keys is true.\<close>

fun filter_None :: "'a option list \<Rightarrow> 'a list" where
  "filter_None [] = []"
| "filter_None (None # rs) = filter_None rs"
| "filter_None (Some r # rs) = r # filter_None rs"

text \<open>\<open>main\<close>: what it raises, or that it returned, and the file system it leaves.\<close>

definition main ::
  "environ \<Rightarrow> cmdline \<Rightarrow> probe_reply \<Rightarrow> (nat \<Rightarrow> replies) \<Rightarrow> filesystem
     \<Rightarrow> ((raised + unit) \<times> filesystem) option" where
  "main env argv probe net fs =
     (case cli env argv of
        Inl r \<Rightarrow> Some (Inl r, fs)
      | Inr args \<Rightarrow>
          (let run_config = define_config_from_cmd args in
           case probe_target_schema probe of
             Inl e \<Rightarrow> Some (Inl (Error e), fs)
           | Inr schema \<Rightarrow>
               (let target = schema @ ''://'' @ cfg_domain run_config;
                    possible_urls = targets_to_check target in
                case create_make_requests env possible_urls net of
                  None \<Rightarrow> None
                | Some (Inl e) \<Rightarrow> Some (Inl (Error e), fs)
                | Some (Inr results) \<Rightarrow>
                    (case write_results_to_file env (filter_None results) fs of
                       Inl e \<Rightarrow> Some (Inl (Error e), fs)
                     | Inr fs' \<Rightarrow> Some (Inr (), fs')))))"

text \<open>
  The \<^verbatim>\<open>if __name__ == '__main__'\<close> block: \<^verbatim>\<open>except Exception\<close> logs what \<open>main\<close>
  raised with \<open>logging.exception\<close> and the script then runs off its end; a \<open>SystemExit\<close>
  is no \<open>Exception\<close> and ends the process with its own status.
\<close>

record process_end =
  exit_code :: nat
  logged :: "exc list"
  disk :: filesystem

definition run_script ::
  "environ \<Rightarrow> cmdline \<Rightarrow> probe_reply \<Rightarrow> (nat \<Rightarrow> replies) \<Rightarrow> filesystem \<Rightarrow> process_end option" where
  "run_script env argv probe net fs =
     (case main env argv probe net fs of
        None \<Rightarrow> None
      | Some (Inr u, fs') \<Rightarrow> Some \<lparr>exit_code = 0, logged = [], disk = fs'\<rparr>
      | Some (Inl (Error e), fs') \<Rightarrow> Some \<lparr>exit_code = 0, logged = [e], disk = fs'\<rparr>
      | Some (Inl (SystemExit n), fs') \<Rightarrow> Some \<lparr>exit_code = n, logged = [], disk = fs'\<rparr>)"

section \<open>The tasks of one scan, interleaved\<close>

text \<open>
  \<open>make_requests\<close> runs one task per URL on one event loop. A task is suspended where it
  awaits: at \<^verbatim>\<open>async with self.semaphore\<close> until a slot is free, and at each GET. Between
  two such points it runs alone. So a task is waiting for its slot, or it holds a slot
  and is in its loop (with its budget and the number of GETs it has issued), or it is
  done, with what it returned or raised. \<open>asyncio.BoundedSemaphore\<close> is its counter of
  free slots: acquiring takes one when there is one, and leaving the \<^verbatim>\<open>async with\<close>
  block, however it is left, gives it back.
\<close>

datatype task = Pending | Running pyval nat | Done "exc + probe_outcome option"

record event_loop =
  semaphore :: nat
  tasks :: "task list"
  failed_requests_num :: int

fun holds_slot :: "task \<Rightarrow> bool" where
  "holds_slot (Running left k) = True"
| "holds_slot t = False"

definition in_flight :: "event_loop \<Rightarrow> nat" where
  "in_flight s = length (filter holds_slot (tasks s))"

text \<open>One move of task \<open>i\<close>, when it can move: it acquires, or it runs its loop up to the
  next GET's reply and handles that reply, or it leaves the loop and releases.\<close>

definition task_step ::
  "environ \<Rightarrow> string list \<Rightarrow> (nat \<Rightarrow> replies) \<Rightarrow> nat \<Rightarrow> event_loop \<Rightarrow> event_loop option" where
  "task_step env urls net i s =
     (case tasks s ! i of
        Pending \<Rightarrow>
          if 0 < semaphore s
          then Some (s\<lparr>semaphore := semaphore s - 1,
                       tasks := (tasks s)[i := Running (LIMIT_OF_ATTEMPTS_TO_RETRY env) 0]\<rparr>)
          else None
      | Running left k \<Rightarrow>
          if py_truthy left then
            (case fetch_iteration env (urls ! i) left (failed_requests_num s) (net i k) of
               (Continue left', failed') \<Rightarrow>
                 Some (s\<lparr>tasks := (tasks s)[i := Running left' (Suc k)],
                         failed_requests_num := failed'\<rparr>)
             | (Return r, failed') \<Rightarrow>
                 Some (s\<lparr>semaphore := semaphore s + 1,
                         tasks := (tasks s)[i := Done (Inr (Some r))],
                         failed_requests_num := failed'\<rparr>)
             | (Break, failed') \<Rightarrow>
                 Some (s\<lparr>semaphore := semaphore s + 1,
                         tasks := (tasks s)[i := Done (Inr None)],
                         failed_requests_num := failed'\<rparr>)
             | (Raise e, failed') \<Rightarrow>
                 Some (s\<lparr>semaphore := semaphore s + 1,
                         tasks := (tasks s)[i := Done (Inl e)],
                         failed_requests_num := failed'\<rparr>))
          else Some (s\<lparr>semaphore := semaphore s + 1,
                        tasks := (tasks s)[i := Done (Inr None)]\<rparr>)
      | Done r \<Rightarrow> None)"

text \<open>The states a scan can be in: it starts with every slot free and every task
  waiting, and any task that can move may be the next to move.\<close>

definition start :: "nat \<Rightarrow> string list \<Rightarrow> event_loop" where
  "start capacity urls =
     \<lparr>semaphore = capacity, tasks = replicate (length urls) Pending, failed_requests_num = 0\<rparr>"

inductive reachable ::
  "environ \<Rightarrow> nat \<Rightarrow> string list \<Rightarrow> (nat \<Rightarrow> replies) \<Rightarrow> event_loop \<Rightarrow> bool"
  for env capacity urls net where
  initial: "reachable env capacity urls net (start capacity urls)"
| move: "reachable env capacity urls net s \<Longrightarrow> i < length urls
         \<Longrightarrow> task_step env urls net i s = Some s'
         \<Longrightarrow> reachable env capacity urls net s'"




section \<open>Properties of the candidate generator\<close>

lemma py_str_digit: "n < 10 \<Longrightarrow> py_str n = [''0123456789'' ! n]"
  by (simp add: py_str.simps)

lemma py_str_step: "10 \<le> n \<Longrightarrow> py_str n = py_str (n div 10) @ [''0123456789'' ! (n mod 10)]"
  by (subst py_str.simps) simp

lemma py_str_999: "py_str 999 = ''999''"
  by (simp add: py_str_step py_str_digit)

lemma length_targets_to_check: "length (targets_to_check t) = 1005"
  by (simp add: targets_to_check_def)

lemma nth_numbered:
  assumes "1 \<le> i" "i \<le> 999"
  shows "targets_to_check t ! (4 + i) = ''/wp-json/wp/v2/users/'' @ py_str i"
proof -
  obtain j where j: "i = Suc j" "j < 999"
    using assms by (cases i) auto
  have "targets_to_check t ! (5 + j)
        = (map (\<lambda>i. ''/wp-json/wp/v2/users/'' @ py_str i) [1..<1000]
           @ [t @ ''/wp-json/wp/v2/users?search=admin@'' @ strip_scheme t]) ! j"
    by (simp add: targets_to_check_def)
  also have "\<dots> = ''/wp-json/wp/v2/users/'' @ py_str (1 + j)"
    using j by (simp add: nth_append)
  finally show ?thesis using j by simp
qed

lemma digit_value: "d < 10 \<Longrightarrow> of_char (''0123456789'' ! d) - 48 = (d::nat)"
proof -
  assume "d < 10"
  then consider "d = 0" | "d = 1" | "d = 2" | "d = 3" | "d = 4" | "d = 5" | "d = 6" | "d = 7"
    | "d = 8" | "d = 9" by atomize_elim arith
  then show ?thesis by cases simp_all
qed

lemma py_str_value: "foldl (\<lambda>a c. 10 * a + (of_char c - 48)) 0 (py_str n) = n"
proof (induction n rule: py_str.induct)
  case (1 n)
  show ?case
  proof (cases "n < 10")
    case True
    then show ?thesis by (simp add: py_str_digit digit_value)
  next
    case False
    then have "foldl (\<lambda>a c. 10 * a + (of_char c - 48)) 0 (py_str (n div 10)) = n div 10"
      using 1 by simp
    with False show ?thesis
      by (simp add: py_str_step digit_value)
  qed
qed

lemma strip_https: "strip_scheme (''https://'' @ d) = d"
  by (simp add: strip_scheme_def)

lemma strip_http: "strip_scheme (''http://'' @ d) = d"
  by (simp add: strip_scheme_def)

text \<open>
  Claim C9. \<open>targets_to_check\<close> depends on its argument alone, so two calls on the same
  base URL give the same list. The list has 1005 entries: the five fixed variants built
  on the target (two under \<open>/blog/\<close>, the bare \<open>wp-json\<close> one, and the two \<open>rest_route\<close>
  queries, the second with the path \<open>/wp/v2/usErs\<close>); then, at the positions 5 to 1003,
  the paths \<open>/wp-json/wp/v2/users/1\<close> to \<open>/wp-json/wp/v2/users/999\<close>, which do not contain
  the target; then the search for \<open>admin@\<close> followed by the target without its scheme.
\<close>

theorem targets_to_check_layout:
  "length (targets_to_check t) = 1005
   \<and> take 5 (targets_to_check t) =
       [t @ ''/blog/wp-json/wp/v2/users'',
        t @ ''/blog/?rest_route=/wp/v2/users'',
        t @ ''/wp-json/wp/v2/users'',
        t @ ''/section/news?rest_route=/wp/v2/users'',
        t @ ''/section/news?rest_route=/wp/v2/usErs'']
   \<and> (\<forall>i. 1 \<le> i \<and> i \<le> 999 \<longrightarrow>
          targets_to_check t ! (4 + i) = ''/wp-json/wp/v2/users/'' @ py_str i)
   \<and> targets_to_check t ! 5 = ''/wp-json/wp/v2/users/1''
   \<and> targets_to_check t ! 1003 = ''/wp-json/wp/v2/users/999''
   \<and> targets_to_check t ! 1004 = t @ ''/wp-json/wp/v2/users?search=admin@'' @ strip_scheme t
   \<and> strip_scheme (''https://'' @ d) = d \<and> strip_scheme (''http://'' @ d) = d"
proof -
  have a: "targets_to_check t ! 5 = ''/wp-json/wp/v2/users/1''"
    using nth_numbered [of 1 t] by (simp add: py_str_digit)
  have b: "targets_to_check t ! 1003 = ''/wp-json/wp/v2/users/999''"
    using nth_numbered [of 999 t] by (simp add: py_str_999)
  have c: "targets_to_check t ! 1004 = t @ ''/wp-json/wp/v2/users?search=admin@'' @ strip_scheme t"
    by (simp add: targets_to_check_def nth_append)
  have d: "take 5 (targets_to_check t) =
       [t @ ''/blog/wp-json/wp/v2/users'',
        t @ ''/blog/?rest_route=/wp/v2/users'',
        t @ ''/wp-json/wp/v2/users'',
        t @ ''/section/news?rest_route=/wp/v2/users'',
        t @ ''/section/news?rest_route=/wp/v2/usErs'']"
    by (simp add: targets_to_check_def)
  show ?thesis
    using a b c d nth_numbered [of _ t] length_targets_to_check [of t] strip_https strip_http
    by blast
qed

theorem targets_to_check_layout_witness:
  "targets_to_check ''https://example.com'' ! 503 = ''/wp-json/wp/v2/users/499''
   \<and> targets_to_check ''https://example.com'' ! 1004
       = ''https://example.com/wp-json/wp/v2/users?search=admin@example.com''"
proof -
  note layout = targets_to_check_layout [of "''https://example.com''" "''example.com''"]
  have py: "py_str 499 = ''499''"
    by (simp add: py_str_step py_str_digit)
  from layout have "1 \<le> (499::nat) \<and> (499::nat) \<le> 999 \<longrightarrow>
      targets_to_check ''https://example.com'' ! (4 + 499) = ''/wp-json/wp/v2/users/'' @ py_str 499"
    by blast
  then have a: "targets_to_check ''https://example.com'' ! 503 = ''/wp-json/wp/v2/users/499''"
    by (simp add: py)
  from layout have "targets_to_check ''https://example.com'' ! 1004
      = ''https://example.com'' @ ''/wp-json/wp/v2/users?search=admin@''
        @ strip_scheme ''https://example.com''"
    by blast
  then have b: "targets_to_check ''https://example.com'' ! 1004
      = ''https://example.com/wp-json/wp/v2/users?search=admin@example.com''"
    by (simp add: strip_scheme_def)
  from a b show ?thesis by simp
qed


section \<open>Properties of the fetch worker\<close>

lemma caught_retry:
  "caught_by e retry_classes \<longleftrightarrow> e \<in> {ClientConnectorError, ClientResponseError, ContentTypeError,
      ServerTimeoutError, TimeoutError, ServerDisconnectedError, ClientOSError}"
  by (cases e) (simp_all add: caught_by_def retry_classes_def)

lemma caught_abort:
  "caught_by e abort_classes \<longleftrightarrow> e \<in> {UnicodeDecodeError, InvalidURL}"
  by (cases e) (simp_all add: caught_by_def abort_classes_def)

lemma handler_retry:
  assumes "LIMIT_OF_ATTEMPTS_TO_RETRY env = PyInt L" "caught_by e retry_classes"
  shows "except_handler env (PyInt m) failed e = (Continue (PyInt (m - 1)), failed + 1)"
  using assms
  by (simp add: except_handler_def py_sub_def py_add_def REQUESTS_RETRIES_NUM_TO_REMOVE_def)

lemma handler_str:
  assumes "LIMIT_OF_ATTEMPTS_TO_RETRY env = PyStr t" "caught_by e retry_classes"
  shows "except_handler env left failed e = (Raise TypeError, failed)"
  using assms
  by (simp add: except_handler_def py_sub_def)

lemma iteration_retry:
  assumes "LIMIT_OF_ATTEMPTS_TO_RETRY env = PyInt L" "retried a"
  shows "fetch_iteration env u (PyInt m) failed a = (Continue (PyInt (m - 1)), failed + 1)"
  using assms
  by (auto simp: fetch_iteration_def retried_def handler_retry
           split: attempt.splits json_result.splits)

lemma iteration_Continue:
  assumes "fetch_iteration env u left failed a = (Continue left', failed')"
  shows "\<exists>L m. LIMIT_OF_ATTEMPTS_TO_RETRY env = PyInt L \<and> py_num left = Some m
            \<and> left' = PyInt (m - 1) \<and> failed' = failed + 1 \<and> retried a"
  using assms
  by (auto simp: fetch_iteration_def except_handler_def retried_def py_sub_def py_add_def
                 REQUESTS_RETRIES_NUM_TO_REMOVE_def LIMIT_OF_ATTEMPTS_TO_RETRY_def
          
           split: attempt.splits json_result.splits if_splits option.splits sum.splits pyval.splits)

lemma fetch_loop_exhaust:
  assumes "LIMIT_OF_ATTEMPTS_TO_RETRY env = PyInt L"
    and "\<forall>j<n. retried (net (k + j))"
  shows "fetch_loop env u net (PyInt (int n)) k failed = Some (Inr None, k + n, failed + int n)"
  using assms(2)
proof (induction n arbitrary: k failed)
  case 0
  show ?case by (subst fetch_loop.simps) simp
next
  case (Suc n)
  have first: "retried (net k)" using Suc.prems by force
  have rest: "\<forall>j<n. retried (net (Suc k + j))" using Suc.prems by force
  have "fetch_loop env u net (PyInt (int (Suc n))) k failed
        = fetch_loop env u net (PyInt (int n)) (Suc k) (failed + 1)"
    by (subst fetch_loop.simps) (simp add: iteration_retry [OF assms(1) first])
  also have "\<dots> = Some (Inr None, Suc k + n, failed + 1 + int n)"
    by (rule Suc.IH [OF rest])
  finally show ?case by simp
qed

lemma fetch_loop_total_int:
  assumes "LIMIT_OF_ATTEMPTS_TO_RETRY env = PyInt L"
  shows "\<exists>r. fetch_loop env u net (PyInt (int n)) k failed = Some r"
proof (induction n arbitrary: k failed)
  case 0
  show ?case by (subst fetch_loop.simps) simp
next
  case (Suc n)
  obtain fl f' where it: "fetch_iteration env u (PyInt (int (Suc n))) failed (net k) = (fl, f')"
    by (cases "fetch_iteration env u (PyInt (int (Suc n))) failed (net k)")
  show ?case
  proof (cases fl)
    case (Continue left')
    with it iteration_Continue [of env u "PyInt (int (Suc n))" failed "net k" left' f']
    have "left' = PyInt (int n)" by auto
    with it Continue Suc.IH [of "Suc k" f'] show ?thesis
      by (subst fetch_loop.simps) simp
  qed (use it in \<open>subst fetch_loop.simps, simp\<close>)+
qed

lemma fetch_total: "\<exists>r. fetch env u net failed = Some r"
proof (cases "env ''LIMIT_OF_ATTEMPTS_TO_RETRY''")
  case None
  then have L: "LIMIT_OF_ATTEMPTS_TO_RETRY env = PyInt 5"
    by (simp add: LIMIT_OF_ATTEMPTS_TO_RETRY_def)
  from fetch_loop_total_int [OF L, of u net 5 0 failed] show ?thesis
    by (simp add: fetch_def L)
next
  case (Some t)
  then have L: "LIMIT_OF_ATTEMPTS_TO_RETRY env = PyStr t"
    by (simp add: LIMIT_OF_ATTEMPTS_TO_RETRY_def)
  obtain fl f' where it: "fetch_iteration env u (PyStr t) failed (net 0) = (fl, f')"
    by (cases "fetch_iteration env u (PyStr t) failed (net 0)")
  show ?thesis
  proof (cases fl)
    case (Continue left')
    with it iteration_Continue [of env u "PyStr t" failed "net 0" left' f'] show ?thesis
      by simp
  qed (use it L in \<open>simp add: fetch_def, subst fetch_loop.simps, simp\<close>)+
qed

lemma fetch_loop_decided:
  assumes "py_truthy left" "fetch_iteration env u left failed (net k) = (fl, failed')"
  shows "fl = Return r \<Longrightarrow> fetch_loop env u net left k failed = Some (Inr (Some r), Suc k, failed')"
    and "fl = Break \<Longrightarrow> fetch_loop env u net left k failed = Some (Inr None, Suc k, failed')"
    and "fl = Raise e \<Longrightarrow> fetch_loop env u net left k failed = Some (Inl e, Suc k, failed')"
  using assms by (subst fetch_loop.simps, simp)+

lemma LIMIT_unset:
  "env ''LIMIT_OF_ATTEMPTS_TO_RETRY'' = None \<Longrightarrow> LIMIT_OF_ATTEMPTS_TO_RETRY env = PyInt 5"
  by (simp add: LIMIT_OF_ATTEMPTS_TO_RETRY_def)

lemma LIMIT_set:
  "env ''LIMIT_OF_ATTEMPTS_TO_RETRY'' = Some t \<Longrightarrow> LIMIT_OF_ATTEMPTS_TO_RETRY env = PyStr t"
  by (simp add: LIMIT_OF_ATTEMPTS_TO_RETRY_def)

lemma fetch_exhaust_default:
  assumes "env ''LIMIT_OF_ATTEMPTS_TO_RETRY'' = None" and "\<forall>k<5. retried (net k)"
  shows "fetch env u net failed = Some (Inr None, 5, failed + 5)"
proof -
  have L: "LIMIT_OF_ATTEMPTS_TO_RETRY env = PyInt 5"
    using assms(1) by (rule LIMIT_unset [of env])
  from fetch_loop_exhaust [OF L, of 5 net 0 u failed] assms(2) show ?thesis
    by (simp add: fetch_def L)
qed

text \<open>
  Claim C2. With \<open>LIMIT_OF_ATTEMPTS_TO_RETRY\<close> unset in the environment the budget is
  the integer 5. When each of the first five GETs for a URL raises one of the six classes
  of the first \<^verbatim>\<open>except\<close> clause, \<open>_fetch\<close> issues exactly five GETs, returns \<open>None\<close>
  (the empty marker) and leaves \<open>failed_requests_num\<close> five higher than it found it.
\<close>

theorem retry_budget_exhausted:
  assumes "env ''LIMIT_OF_ATTEMPTS_TO_RETRY'' = None"
    and "\<forall>k<5. \<exists>e. net k = GetRaises e \<and> e \<in> set retry_classes"
  shows "fetch env u net failed = Some (Inr None, 5, failed + 5)"
proof -
  have "\<forall>k<5. retried (net k)"
    using assms(2) by (auto simp: retried_def caught_by_def)
  with assms(1) show ?thesis by (rule fetch_exhaust_default)
qed

theorem retry_budget_exhausted_witness:
  "fetch Map.empty ''https://example.com/wp-json/wp/v2/users''
     (\<lambda>k. GetRaises ServerDisconnectedError) 7 = Some (Inr None, 5, 12)"
  using retry_budget_exhausted [of Map.empty "\<lambda>k. GetRaises ServerDisconnectedError"
          "''https://example.com/wp-json/wp/v2/users''" 7]
  by (simp add: retry_classes_def)

text \<open>
  Claim C3. At whatever pass of the loop a GET completes with a status among 400, 403,
  404 and 500, that pass is the last: the loop is left through the \<^verbatim>\<open>else\<close> clause with
  no further GET, \<open>_fetch\<close> returns \<open>None\<close>, and \<open>failed_requests_num\<close> is as it was before
  the GET. In particular, when the loop is entered (the budget is true: the default 5, or
  any non-empty text from the environment) and the first GET completes with such a status,
  \<open>_fetch\<close> issues one GET in all.
\<close>

theorem terminal_status_single_observation:
  "(py_truthy left \<and> net k = Response status j \<and> status \<in> {400, 403, 404, 500}
      \<longrightarrow> fetch_loop env u net left k failed = Some (Inr None, Suc k, failed))
   \<and> (py_truthy (LIMIT_OF_ATTEMPTS_TO_RETRY env) \<and> net 0 = Response status j
        \<and> status \<in> {400, 403, 404, 500}
      \<longrightarrow> fetch env u net failed = Some (Inr None, 1, failed))"
proof -
  have pass: "fetch_loop env u net left k failed = Some (Inr None, Suc k, failed)"
    if "py_truthy left" "net k = Response status j" "status \<in> {400, 403, 404, 500}"
    for left k
  proof -
    have "fetch_iteration env u left failed (net k) = (Break, failed)"
      using that(2,3) by (auto simp: fetch_iteration_def ERRORS_STATUS_CODES_def)
    with that(1) show ?thesis
      by (simp add: fetch_loop_decided(2) [where net = net and k = k])
  qed
  from pass [of left k] pass [of "LIMIT_OF_ATTEMPTS_TO_RETRY env" 0] show ?thesis
    by (simp add: fetch_def)
qed

theorem terminal_status_single_observation_witness:
  "fetch_loop Map.empty ''https://example.com/blog/wp-json/wp/v2/users''
     (\<lambda>k. if k = 0 then GetRaises TimeoutError else Response 403 (JsonOk JNull)) (PyInt 4) 1 1
     = Some (Inr None, 2, 1)
   \<and> fetch Map.empty ''https://example.com/blog/wp-json/wp/v2/users''
       (\<lambda>k. Response 404 (JsonOk JNull)) 0 = Some (Inr None, 1, 0)"
proof -
  from terminal_status_single_observation
    [of "PyInt 4" "\<lambda>k. if k = 0 then GetRaises TimeoutError else Response 403 (JsonOk JNull)" 1
        403 "JsonOk JNull" Map.empty "''https://example.com/blog/wp-json/wp/v2/users''" 1]
  have a: "fetch_loop Map.empty ''https://example.com/blog/wp-json/wp/v2/users''
     (\<lambda>k. if k = 0 then GetRaises TimeoutError else Response 403 (JsonOk JNull)) (PyInt 4) 1 1
     = Some (Inr None, 2, 1)"
    by simp
  from terminal_status_single_observation
    [of _ "\<lambda>k. Response 404 (JsonOk JNull)" 0 404 "JsonOk JNull" Map.empty
        "''https://example.com/blog/wp-json/wp/v2/users''" 0]
  have b: "fetch Map.empty ''https://example.com/blog/wp-json/wp/v2/users''
       (\<lambda>k. Response 404 (JsonOk JNull)) 0 = Some (Inr None, 1, 0)"
    by (simp add: LIMIT_OF_ATTEMPTS_TO_RETRY_def)
  from a b show ?thesis by simp
qed

text \<open>
  Claim C8. A budget taken from the environment is a text, and is never converted. With
  \<open>LIMIT_OF_ATTEMPTS_TO_RETRY=3\<close> and a first GET that raises \<open>ClientConnectorError\<close>, the
  handler computes \<^verbatim>\<open>'3' - '3'\<close>: \<open>_fetch\<close> raises \<open>TypeError\<close> after one GET, it does not
  return the empty marker after three, and the counter is still 0.
\<close>

theorem budget_from_environment_raises:
  "fetch [''LIMIT_OF_ATTEMPTS_TO_RETRY'' \<mapsto> ''3''] ''https://example.com/wp-json/wp/v2/users''
     (\<lambda>k. GetRaises ClientConnectorError) 0 = Some (Inl TypeError, 1, 0)"
proof -
  let ?env = "[''LIMIT_OF_ATTEMPTS_TO_RETRY'' \<mapsto> ''3'']"
  have L: "LIMIT_OF_ATTEMPTS_TO_RETRY ?env = PyStr ''3''"
    by (simp add: LIMIT_OF_ATTEMPTS_TO_RETRY_def)
  have "fetch_iteration ?env ''https://example.com/wp-json/wp/v2/users'' (PyStr ''3'') 0
          (GetRaises ClientConnectorError) = (Raise TypeError, 0)"
    by (simp add: fetch_iteration_def handler_str [OF L] caught_retry)
  then show ?thesis
    by (simp add: fetch_def L
          fetch_loop_decided(3) [where net = "\<lambda>k. GetRaises ClientConnectorError" and k = 0])
qed

lemma handler_Break:
  "fst (except_handler env left failed e) = Break \<longleftrightarrow> e = UnicodeDecodeError \<or> e = InvalidURL"
  by (cases e)
     (simp_all add: except_handler_def caught_by_def retry_classes_def abort_classes_def
        split: sum.splits)

text \<open>
  Claim C10. An exception leaves the loop at once with the empty marker exactly when it
  is \<open>UnicodeDecodeError\<close> or \<open>InvalidURL\<close>. \<open>ContentTypeError\<close> derives from
  \<open>ClientResponseError\<close>, so the first \<^verbatim>\<open>except\<close> clause catches it: with the default
  budget, a URL whose replies all have a status outside the error set and a body whose
  decoding raises \<open>ContentTypeError\<close> costs five GETs and five increments of the counter
  before \<open>_fetch\<close> returns \<open>None\<close>, where a body whose decoding raises
  \<open>UnicodeDecodeError\<close> costs one GET and no increment.
\<close>

theorem content_type_error_is_retried:
  "(fst (except_handler env left failed e) = Break \<longleftrightarrow> e = UnicodeDecodeError \<or> e = InvalidURL)
   \<and> ClientResponseError \<in> set (exc_ancestors ContentTypeError)
   \<and> caught_by ContentTypeError retry_classes
   \<and> (env ''LIMIT_OF_ATTEMPTS_TO_RETRY'' = None
        \<and> (\<forall>k<5. \<exists>status. net k = Response status (JsonRaises ContentTypeError)
                      \<and> status \<notin> {400, 403, 404, 500})
       \<longrightarrow> fetch env u net failed = Some (Inr None, 5, failed + 5))
   \<and> (py_truthy (LIMIT_OF_ATTEMPTS_TO_RETRY env)
        \<and> net' 0 = Response status' (JsonRaises UnicodeDecodeError)
       \<longrightarrow> fetch env u net' failed = Some (Inr None, 1, failed))"
proof -
  have a: "caught_by ContentTypeError retry_classes"
    by (simp add: caught_retry)
  have b: "fetch env u net failed = Some (Inr None, 5, failed + 5)"
    if unset: "env ''LIMIT_OF_ATTEMPTS_TO_RETRY'' = None"
      and all: "\<forall>k<5. \<exists>status. net k = Response status (JsonRaises ContentTypeError)
                      \<and> status \<notin> {400, 403, 404, 500}"
  proof -
    have "\<forall>k<5. retried (net k)"
      using all by (auto simp: retried_def a ERRORS_STATUS_CODES_def)
    with unset show ?thesis by (rule fetch_exhaust_default)
  qed
  have c: "fetch env u net' failed = Some (Inr None, 1, failed)"
    if tr: "py_truthy (LIMIT_OF_ATTEMPTS_TO_RETRY env)"
      and first: "net' 0 = Response status' (JsonRaises UnicodeDecodeError)"
  proof -
    have "fetch_iteration env u (LIMIT_OF_ATTEMPTS_TO_RETRY env) failed (net' 0) = (Break, failed)"
      using first
      by (simp add: fetch_iteration_def except_handler_def caught_retry caught_abort)
    with tr show ?thesis
      by (simp add: fetch_def fetch_loop_decided(2) [where net = net' and k = 0])
  qed
  show ?thesis
    using a b c handler_Break [of env left failed e] by simp
qed

theorem content_type_error_is_retried_witness:
  "fetch Map.empty ''https://example.com/wp-json/wp/v2/users''
      (\<lambda>k. Response 200 (JsonRaises ContentTypeError)) 0 = Some (Inr None, 5, 5)
   \<and> fetch Map.empty ''https://example.com/wp-json/wp/v2/users''
      (\<lambda>k. Response 200 (JsonRaises UnicodeDecodeError)) 0 = Some (Inr None, 1, 0)
   \<and> fst (except_handler Map.empty (PyInt 5) 0 InvalidURL) = Break"
  using content_type_error_is_retried [of Map.empty "PyInt 5" 0 InvalidURL
          "\<lambda>k. Response 200 (JsonRaises ContentTypeError)"
          "''https://example.com/wp-json/wp/v2/users''"
          "\<lambda>k. Response 200 (JsonRaises UnicodeDecodeError)" 200]
  by (simp add: LIMIT_OF_ATTEMPTS_TO_RETRY_def)



section \<open>Properties of the orchestrator\<close>

text \<open>A worker's result and its number of GETs do not depend on the counter it starts
  from, and the counter moves by the same amount; a populated result carries the URL of
  its own worker.\<close>

lemma iteration_shift:
  "fetch_iteration env u left (g + c) a
     = (fst (fetch_iteration env u left g a), snd (fetch_iteration env u left g a) + c)"
  by (simp add: fetch_iteration_def except_handler_def
           split: attempt.splits json_result.splits sum.splits)

lemma fetch_loop_shift_Some:
  assumes "fetch_loop env u net left k g = Some y"
  shows "fetch_loop env u net left k (g + c) = Some (fst y, fst (snd y), snd (snd y) + c)"
proof -
  have "\<forall>c. fetch_loop env u net left k (g + c) = Some (fst y, fst (snd y), snd (snd y) + c)"
  proof (rule fetch_loop.raw_induct
      [where P = "\<lambda>env u net left k g y.
          \<forall>c. fetch_loop env u net left k (g + c) = Some (fst y, fst (snd y), snd (snd y) + c)",
        OF _ assms], goal_cases)
    case (1 loop env u net left k g y)
    show ?case
    proof (cases "py_truthy left")
      case False
      with 1(2) show ?thesis
        by (subst fetch_loop.simps) auto
    next
      case True
      obtain fl d where it: "fetch_iteration env u left g (net k) = (fl, d)"
        by (cases "fetch_iteration env u left g (net k)")
      then have it': "\<And>c. fetch_iteration env u left (g + c) (net k) = (fl, d + c)"
        by (simp add: iteration_shift [of env u left g])
      show ?thesis
      proof (cases fl)
        case (Continue left')
        with True it 1(2) have "loop env u net left' (Suc k) d = Some y" by simp
        from 1(1) [OF this] True it' Continue show ?thesis
          by (subst fetch_loop.simps) simp
      qed (use True it it' 1(2) in \<open>subst fetch_loop.simps, auto\<close>)+
    qed
  qed
  then show ?thesis by blast
qed

lemma fetch_loop_shift:
  "fetch_loop env u net left k (g + c)
     = map_option (\<lambda>(r, k', d). (r, k', d + c)) (fetch_loop env u net left k g)"
proof (cases "fetch_loop env u net left k g")
  case (Some y)
  from fetch_loop_shift_Some [OF this, of c] Some show ?thesis
    by (simp add: case_prod_beta)
next
  case None
  show ?thesis
  proof (cases "fetch_loop env u net left k (g + c)")
    case (Some y)
    from fetch_loop_shift_Some [OF this, of "- c"] None show ?thesis by simp
  qed (simp add: None)
qed

lemma fetch_shift:
  "fetch env u net g = map_option (\<lambda>(r, k', d). (r, k', d + g)) (fetch env u net 0)"
  using fetch_loop_shift [of env u net "LIMIT_OF_ATTEMPTS_TO_RETRY env" 0 0 g]
  by (simp add: fetch_def)



lemma fetch_from_0:
  assumes "fetch env u net g = Some (r, k, d)"
  shows "fetch env u net 0 = Some (r, k, increments env u net) \<and> d = g + increments env u net"
  using assms fetch_shift [of env u net g]
  by (cases "fetch env u net 0") (auto simp: increments_def)

lemma run_tasks_Some:
  "run_tasks env net i urls f0 = Some (rs, f)
   \<Longrightarrow> length rs = length urls
       \<and> (\<forall>j<length urls. \<exists>k. fetch env (urls ! j) (net (i + j)) 0
                = Some (rs ! j, k, increments env (urls ! j) (net (i + j))))
       \<and> f = f0 + (\<Sum>j<length urls. increments env (urls ! j) (net (i + j)))"
proof (induction urls arbitrary: i f0 rs f)
  case Nil
  then show ?case by simp
next
  case (Cons u us)
  from Cons.prems obtain r k d rs' where
    head: "fetch env u (net i) f0 = Some (r, k, d)" and
    tail: "run_tasks env net (Suc i) us d = Some (rs', f)" and
    rs: "rs = r # rs'"
    by (auto split: option.splits)
  note h = fetch_from_0 [OF head]
  note t = Cons.IH [OF tail]
  have len: "length rs = length (u # us)" using rs t by simp
  have nth: "\<exists>k. fetch env ((u # us) ! j) (net (i + j)) 0
                = Some (rs ! j, k, increments env ((u # us) ! j) (net (i + j)))"
    if "j < length (u # us)" for j
  proof (cases j)
    case 0
    with h rs show ?thesis by auto
  next
    case (Suc j')
    with that t rs show ?thesis by auto
  qed
  have "f = d + (\<Sum>j<length us. increments env (us ! j) (net (Suc i + j)))"
    using t by simp
  also have "\<dots> = f0 + (\<Sum>j<length (u # us). increments env ((u # us) ! j) (net (i + j)))"
    using h by (simp add: sum.lessThan_Suc_shift del: sum.lessThan_Suc)
  finally show ?case using len nth by blast
qed

lemma run_tasks_total: "\<exists>r. run_tasks env net i urls f0 = Some r"
proof (induction urls arbitrary: i f0)
  case Nil
  show ?case by simp
next
  case (Cons u us)
  obtain r k d where "fetch env u (net i) f0 = Some (r, k, d)"
    using fetch_total [of env u "net i" f0] by auto
  moreover obtain q where "run_tasks env net (Suc i) us d = Some q"
    using Cons.IH by blast
  ultimately show ?case by (cases q) simp
qed

lemma gather_Inr: "gather rs = Inr vs \<Longrightarrow> rs = map Inr vs"
proof (induction rs arbitrary: vs)
  case Nil
  then show ?case by simp
next
  case (Cons r rs)
  then show ?case by (cases r) (auto split: sum.splits)
qed

lemma gather_map_Inr: "gather (map Inr vs) = Inr vs"
  by (induction vs) simp_all

lemma gather_Inl:
  "gather rs = Inl e \<Longrightarrow> \<exists>j<length rs. rs ! j = Inl e \<and> (\<forall>j'<j. \<exists>v. rs ! j' = Inr v)"
proof (induction rs)
  case Nil
  then show ?case by simp
next
  case (Cons r rs)
  show ?case
  proof (cases r)
    case (Inl e')
    with Cons.prems show ?thesis by (intro exI [of _ 0]) simp
  next
    case (Inr v)
    with Cons.prems have "gather rs = Inl e" by (simp split: sum.splits)
    from Cons.IH [OF this] obtain j where
      j: "j < length rs" "rs ! j = Inl e" "\<forall>j'<j. \<exists>v. rs ! j' = Inr v" by blast
    have "\<forall>j'<Suc j. \<exists>v. (r # rs) ! j' = Inr v"
      using j(3) Inr by (auto simp: nth_Cons split: nat.splits)
    with j(1,2) show ?thesis by (intro exI [of _ "Suc j"]) simp
  qed
qed

lemma gather_raises: "Inl e \<in> set rs \<Longrightarrow> \<exists>e'. gather rs = Inl e'"
proof (induction rs)
  case Nil
  then show ?case by simp
next
  case (Cons r rs)
  then show ?case by (cases r) (auto split: sum.splits)
qed

lemma filter_None_append: "filter_None (xs @ ys) = filter_None xs @ filter_None ys"
  by (induction xs rule: filter_None.induct) simp_all

lemma filter_None_replicate: "filter_None (replicate n None) = []"
  by (induction n) simp_all






section \<open>Properties of the interleaved scan\<close>

text \<open>Every move of a task is an acquisition, one retried GET, or a release. The slots
  are conserved by each, and so is the agreement with the workers run one by one.\<close>

lemma count_update:
  "i < length ts \<Longrightarrow>
   length (filter P (ts[i := t])) + (if P (ts ! i) then 1 else 0)
     = length (filter P ts) + (if P t then 1 else 0)"
proof (induction ts arbitrary: i)
  case Nil
  then show ?case by simp
next
  case (Cons a ts)
  show ?case
  proof (cases i)
    case 0
    then show ?thesis by simp
  next
    case (Suc j)
    with Cons.prems have "j < length ts" by simp
    from Cons.IH [OF this] Suc show ?thesis by simp
  qed
qed

lemma task_step_cases:
  assumes "task_step env urls net i s = Some s'"
  obtains
    (acquire) "tasks s ! i = Pending" "0 < semaphore s" "semaphore s' = semaphore s - 1"
      "tasks s' = (tasks s)[i := Running (LIMIT_OF_ATTEMPTS_TO_RETRY env) 0]"
      "failed_requests_num s' = failed_requests_num s"
  | (retry) left k left' where "tasks s ! i = Running left k" "semaphore s' = semaphore s"
      "tasks s' = (tasks s)[i := Running left' (Suc k)]"
      "failed_requests_num s' = failed_requests_num s + 1"
      "fetch_loop env (urls ! i) (net i) left k (failed_requests_num s)
         = fetch_loop env (urls ! i) (net i) left' (Suc k) (failed_requests_num s')"
  | (release) left k r k' where "tasks s ! i = Running left k" "semaphore s' = semaphore s + 1"
      "tasks s' = (tasks s)[i := Done r]"
      "failed_requests_num s' = failed_requests_num s"
      "fetch_loop env (urls ! i) (net i) left k (failed_requests_num s)
         = Some (r, k', failed_requests_num s')"
proof (cases "tasks s ! i")
  case Pending
  with assms show ?thesis
    by (intro acquire) (auto simp: task_step_def split: if_splits)
next
  case (Done r)
  with assms show ?thesis by (simp add: task_step_def)
next
  case (Running left k)
  show ?thesis
  proof (cases "py_truthy left")
    case False
    with assms Running show ?thesis
      by (intro release [of left k "Inr None" k])
         (auto simp: task_step_def, subst fetch_loop.simps, simp)
  next
    case True
    obtain fl g where it:
      "fetch_iteration env (urls ! i) left (failed_requests_num s) (net i k) = (fl, g)"
      by (cases "fetch_iteration env (urls ! i) left (failed_requests_num s) (net i k)")
    show ?thesis
    proof (cases fl)
      case (Continue left')
      from iteration_Continue [OF it [unfolded Continue]]
      have g: "g = failed_requests_num s + 1" by blast
      from assms Running True it Continue g show ?thesis
        by (intro retry [of left k left'])
           (auto simp: task_step_def, subst fetch_loop.simps, simp)
    next
      case (Return r)
      with it have g: "g = failed_requests_num s"
        by (auto simp: fetch_iteration_def except_handler_def
              split: attempt.splits json_result.splits sum.splits if_splits)
      from assms Running True it Return g show ?thesis
        by (intro release [of left k "Inr (Some r)" "Suc k"])
           (auto simp: task_step_def, subst fetch_loop.simps, simp)
    next
      case Break
      with it have g: "g = failed_requests_num s"
        by (auto simp: fetch_iteration_def except_handler_def
              split: attempt.splits json_result.splits sum.splits if_splits)
      from assms Running True it Break g show ?thesis
        by (intro release [of left k "Inr None" "Suc k"])
           (auto simp: task_step_def, subst fetch_loop.simps, simp)
    next
      case (Raise e)
      with it have g: "g = failed_requests_num s"
        by (auto simp: fetch_iteration_def except_handler_def
              split: attempt.splits json_result.splits sum.splits if_splits)
      from assms Running True it Raise g show ?thesis
        by (intro release [of left k "Inl e" "Suc k"])
           (auto simp: task_step_def, subst fetch_loop.simps, simp)
    qed
  qed
qed

lemma slots_invariant:
  assumes "reachable env capacity urls net s"
  shows "length (tasks s) = length urls \<and> semaphore s + in_flight s = capacity"
  using assms
proof (induction rule: reachable.induct)
  case initial
  show ?case by (simp add: start_def in_flight_def)
next
  case (move s i s')
  then have len: "length (tasks s) = length urls"
    and inv: "semaphore s + in_flight s = capacity" by simp_all
  have i: "i < length (tasks s)" using move.hyps(2) len by simp
  note upd = count_update [OF i, of holds_slot]
  from move.hyps(3) show ?case
  proof (cases rule: task_step_cases)
    case acquire
    with upd [of "Running (LIMIT_OF_ATTEMPTS_TO_RETRY env) 0"] inv len show ?thesis
      by (simp add: in_flight_def)
  next
    case (retry left k left')
    with upd [of "Running left' (Suc k)"] inv len show ?thesis
      by (simp add: in_flight_def)
  next
    case (release left k r k')
    with upd [of "Done r"] inv len show ?thesis
      by (simp add: in_flight_def)
  qed
qed







section \<open>What the first reply decides\<close>

text \<open>A first reply that is not retried ends the worker after one GET.\<close>

lemma fetch_populated:
  assumes "py_truthy (LIMIT_OF_ATTEMPTS_TO_RETRY env)"
    and "net 0 = Response status (JsonOk b)" and "status \<notin> set ERRORS_STATUS_CODES"
  shows "fetch env u net g = Some (Inr (Some \<lparr>url = u, status_code = status, body = b\<rparr>), 1, g)"
proof -
  have "fetch_iteration env u (LIMIT_OF_ATTEMPTS_TO_RETRY env) g (net 0)
          = (Return \<lparr>url = u, status_code = status, body = b\<rparr>, g)"
    using assms(2,3) by (simp add: fetch_iteration_def)
  with assms(1) show ?thesis
    by (simp add: fetch_def fetch_loop_decided(1) [where net = net and k = 0])
qed

lemma fetch_terminal:
  assumes "py_truthy (LIMIT_OF_ATTEMPTS_TO_RETRY env)"
    and "net 0 = Response status j" and "status \<in> set ERRORS_STATUS_CODES"
  shows "fetch env u net g = Some (Inr None, 1, g)"
proof -
  have "fetch_iteration env u (LIMIT_OF_ATTEMPTS_TO_RETRY env) g (net 0) = (Break, g)"
    using assms(2,3) by (simp add: fetch_iteration_def)
  with assms(1) show ?thesis
    by (simp add: fetch_def fetch_loop_decided(2) [where net = net and k = 0])
qed

lemma fetch_uncaught:
  assumes "py_truthy (LIMIT_OF_ATTEMPTS_TO_RETRY env)"
    and "net 0 = GetRaises e \<or> (\<exists>status. net 0 = Response status (JsonRaises e)
                                  \<and> status \<notin> set ERRORS_STATUS_CODES)"
    and "\<not> caught_by e retry_classes" and "\<not> caught_by e abort_classes"
  shows "fetch env u net g = Some (Inl e, 1, g)"
proof -
  have "fetch_iteration env u (LIMIT_OF_ATTEMPTS_TO_RETRY env) g (net 0) = (Raise e, g)"
    using assms(2,3,4) by (auto simp: fetch_iteration_def except_handler_def)
  with assms(1) show ?thesis
    by (simp add: fetch_def fetch_loop_decided(3) [where net = net and k = 0])
qed


lemma iteration_handled:
  assumes "LIMIT_OF_ATTEMPTS_TO_RETRY env = PyInt L" "handled a"
  shows "fst (fetch_iteration env u (PyInt m) g a) \<noteq> Raise e"
  using assms
  by (auto simp: fetch_iteration_def except_handler_def handled_def py_sub_def py_add_def
        split: attempt.splits json_result.splits if_splits)

lemma fetch_loop_handled:
  assumes "LIMIT_OF_ATTEMPTS_TO_RETRY env = PyInt L" "\<forall>k. handled (net k)"
  shows "\<exists>r k' d. fetch_loop env u net (PyInt (int n)) k g = Some (Inr r, k', d)"
proof (induction n arbitrary: k g)
  case 0
  show ?case by (subst fetch_loop.simps) simp
next
  case (Suc n)
  obtain fl d where it: "fetch_iteration env u (PyInt (int (Suc n))) g (net k) = (fl, d)"
    by (cases "fetch_iteration env u (PyInt (int (Suc n))) g (net k)")
  show ?case
  proof (cases fl)
    case (Continue left')
    with it iteration_Continue [of env u "PyInt (int (Suc n))" g "net k" left' d]
    have "left' = PyInt (int n)" by auto
    with it Continue Suc.IH [of "Suc k" d] show ?thesis
      by (subst fetch_loop.simps) simp
  next
    case (Raise e)
    with it iteration_handled [OF assms(1), of "net k" u "int (Suc n)" g e] assms(2)
    show ?thesis by simp
  qed (use it in \<open>subst fetch_loop.simps, simp\<close>)+
qed

lemma handled_errors_never_abort:
  assumes "env ''LIMIT_OF_ATTEMPTS_TO_RETRY'' = None" "\<forall>i k. handled (net i k)"
  shows "\<exists>results f. make_requests env urls net 0 = Some (Inr results, f)"
proof -
  have L: "LIMIT_OF_ATTEMPTS_TO_RETRY env = PyInt 5"
    using assms(1) by (rule LIMIT_unset [of env])
  obtain rs f where run: "run_tasks env net 0 urls 0 = Some (rs, f)"
    using run_tasks_total [of env net 0 urls 0] by auto
  note facts = run_tasks_Some [OF run]
  have "\<exists>v. rs ! j = Inr v" if j: "j < length rs" for j
  proof -
    from facts j obtain k where
      "fetch env (urls ! j) (net (0 + j)) 0
         = Some (rs ! j, k, increments env (urls ! j) (net (0 + j)))"
      by auto
    moreover from fetch_loop_handled [OF L, of "net j" "urls ! j" 5 0 0] assms(2)
    obtain r k' d where "fetch env (urls ! j) (net j) 0 = Some (Inr r, k', d)"
      by (auto simp: fetch_def L)
    ultimately show ?thesis by (auto dest: sym)
  qed
  then have all: "\<forall>j<length rs. \<exists>v. rs ! j = Inr v" by blast
  obtain results where "gather rs = Inr results"
  proof (cases "gather rs")
    case (Inl e)
    from gather_Inl [OF this] all show ?thesis by fastforce
  qed
  with run show ?thesis by (simp add: make_requests_def)
qed

lemma configured_budget_raises:
  assumes "env ''LIMIT_OF_ATTEMPTS_TO_RETRY'' = Some t" "t \<noteq> []" "retried (net 0)"
  shows "fetch env u net g = Some (Inl TypeError, 1, g)"
proof -
  have L: "LIMIT_OF_ATTEMPTS_TO_RETRY env = PyStr t"
    using assms(1) by (rule LIMIT_set [of env])
  have "fetch_iteration env u (PyStr t) g (net 0) = (Raise TypeError, g)"
    using assms(3)
    by (auto simp: fetch_iteration_def retried_def handler_str [OF L]
          split: attempt.splits json_result.splits)
  with assms(2) show ?thesis
    by (simp add: fetch_def L fetch_loop_decided(3) [where net = net and k = 0])
qed

lemma empty_budget_probes_nothing:
  assumes "env ''LIMIT_OF_ATTEMPTS_TO_RETRY'' = Some []"
  shows "fetch env u net g = Some (Inr None, 0, g)"
proof -
  have L: "LIMIT_OF_ATTEMPTS_TO_RETRY env = PyStr []"
    using assms(1) by (rule LIMIT_set [of env])
  show ?thesis by (simp add: fetch_def L, subst fetch_loop.simps, simp)
qed


section \<open>The semaphore\<close>

lemma task_step_without_slot:
  assumes "\<not> holds_slot (tasks s ! i)"
  shows "task_step env urls net i s = task_step env urls net' i s"
  using assms by (cases "tasks s ! i") (simp_all add: task_step_def)

lemma task_step_leaves:
  assumes "task_step env urls net i s = Some s'" "i < length (tasks s)"
    and "holds_slot (tasks s ! i)" "\<not> holds_slot (tasks s' ! i)"
  shows "semaphore s' = semaphore s + 1"
  using assms(1)
proof (cases rule: task_step_cases)
  case acquire
  with assms(3) show ?thesis by simp
next
  case (retry left k left')
  with assms(2,4) show ?thesis by simp
next
  case (release left k r k')
  then show ?thesis by simp
qed

text \<open>
  Claim C5. In every state a scan can reach, under any interleaving of its tasks and for
  any capacity of the semaphore (51 in \<open>RequestManager\<close>), the tasks inside
  \<^verbatim>\<open>async with self.semaphore\<close> and the free slots add up to the capacity, so at most
  that many tasks are inside. A task outside the block makes its move without the network:
  every GET is issued by a task that holds a slot. And a task that leaves the block, by
  \<^verbatim>\<open>return\<close>, \<^verbatim>\<open>break\<close>, the end of the loop or an exception, gives its slot back.
\<close>

theorem slots_never_exceeded:
  "reachable env capacity urls net s \<longrightarrow>
     in_flight s \<le> capacity
     \<and> semaphore s + in_flight s = capacity
     \<and> (\<forall>i net'. \<not> holds_slot (tasks s ! i)
           \<longrightarrow> task_step env urls net i s = task_step env urls net' i s)
     \<and> (\<forall>i s'. i < length urls \<and> task_step env urls net i s = Some s'
                 \<and> holds_slot (tasks s ! i) \<and> \<not> holds_slot (tasks s' ! i)
           \<longrightarrow> semaphore s' = semaphore s + 1)"
proof
  assume r: "reachable env capacity urls net s"
  from slots_invariant [OF r]
  have len: "length (tasks s) = length urls" and inv: "semaphore s + in_flight s = capacity"
    by simp_all
  from inv have "in_flight s \<le> capacity" by simp
  moreover have "\<forall>i net'. \<not> holds_slot (tasks s ! i)
           \<longrightarrow> task_step env urls net i s = task_step env urls net' i s"
    using task_step_without_slot by blast
  moreover have "\<forall>i s'. i < length urls \<and> task_step env urls net i s = Some s'
                 \<and> holds_slot (tasks s ! i) \<and> \<not> holds_slot (tasks s' ! i)
           \<longrightarrow> semaphore s' = semaphore s + 1"
    using task_step_leaves len by metis
  ultimately show "in_flight s \<le> capacity
     \<and> semaphore s + in_flight s = capacity
     \<and> (\<forall>i net'. \<not> holds_slot (tasks s ! i)
           \<longrightarrow> task_step env urls net i s = task_step env urls net' i s)
     \<and> (\<forall>i s'. i < length urls \<and> task_step env urls net i s = Some s'
                 \<and> holds_slot (tasks s ! i) \<and> \<not> holds_slot (tasks s' ! i)
           \<longrightarrow> semaphore s' = semaphore s + 1)"
    using inv by blast
qed

theorem slots_never_exceeded_witness:
  "reachable Map.empty SIMULTANEOUS_CONCURRENT_TASKS
      [''https://example.com/wp-json/wp/v2/users'', ''/wp-json/wp/v2/users/1'']
      (\<lambda>i k. Response 404 (JsonOk JNull))
      \<lparr>semaphore = 50, tasks = [Running (PyInt 5) 0, Pending], failed_requests_num = 0\<rparr>
   \<and> in_flight \<lparr>semaphore = 50, tasks = [Running (PyInt 5) 0, Pending],
                 failed_requests_num = 0\<rparr> \<le> SIMULTANEOUS_CONCURRENT_TASKS"
proof -
  let ?urls = "[''https://example.com/wp-json/wp/v2/users'', ''/wp-json/wp/v2/users/1'']"
  let ?net = "\<lambda>(i::nat) (k::nat). Response 404 (JsonOk JNull)"
  let ?s = "\<lparr>semaphore = 50, tasks = [Running (PyInt 5) 0, Pending], failed_requests_num = 0\<rparr>"
  have st: "task_step Map.empty ?urls ?net 0 (start SIMULTANEOUS_CONCURRENT_TASKS ?urls) = Some ?s"
    by (simp add: task_step_def start_def SIMULTANEOUS_CONCURRENT_TASKS_def
          LIMIT_OF_ATTEMPTS_TO_RETRY_def)
  have r: "reachable Map.empty SIMULTANEOUS_CONCURRENT_TASKS ?urls ?net ?s"
    by (rule reachable.move [OF reachable.initial _ st]) simp
  from r slots_never_exceeded [of Map.empty SIMULTANEOUS_CONCURRENT_TASKS ?urls ?net ?s]
  show ?thesis by blast
qed


section \<open>The order of the results\<close>





section \<open>One scan, end to end\<close>

lemma run_tasks_pointwise:
  assumes "\<And>j. j < length urls \<Longrightarrow> \<exists>k d. fetch env (urls ! j) (net j) 0 = Some (R j, k, d)"
  shows "\<exists>f. run_tasks env net 0 urls 0 = Some (map R [0..<length urls], f)"
proof -
  obtain rs f where run: "run_tasks env net 0 urls 0 = Some (rs, f)"
    using run_tasks_total [of env net 0 urls 0] by auto
  note facts = run_tasks_Some [OF run]
  from facts have len: "length rs = length urls" by simp
  have "rs ! j = R j" if j: "j < length urls" for j
  proof -
    from facts j obtain k where
      "fetch env (urls ! j) (net (0 + j)) 0
         = Some (rs ! j, k, increments env (urls ! j) (net (0 + j)))"
      by blast
    with assms [OF j] show ?thesis by auto
  qed
  with len have "rs = map R [0..<length urls]"
    by (intro nth_equalityI) simp_all
  with run show ?thesis by blast
qed

lemma gather_first_Inl:
  assumes "j < length rs" "rs ! j = Inl e" "\<forall>j'<j. \<exists>v. rs ! j' = Inr v"
  shows "gather rs = Inl e"
proof (cases "gather rs")
  case (Inr vs)
  from gather_Inr [OF this] assms(1,2) show ?thesis by simp
next
  case (Inl e')
  from gather_Inl [OF this] obtain j0 where
    j0: "j0 < length rs" "rs ! j0 = Inl e'" "\<forall>j'<j0. \<exists>v. rs ! j' = Inr v" by blast
  have "j0 = j"
  proof (rule ccontr)
    assume "j0 \<noteq> j"
    then consider "j0 < j" | "j < j0" by linarith
    then show False
    proof cases
      case 1
      with assms(3) j0(2) show False by auto
    next
      case 2
      with j0(3) assms(2) show False by auto
    qed
  qed
  with j0(2) assms(2) Inl show ?thesis by simp
qed

lemma gather_map_Inr_comp: "gather (map (Inr \<circ> f) xs) = Inr (map f xs)"
  using gather_map_Inr [of "map f xs"] by simp

lemma filter_None_all_None: "\<forall>x\<in>set xs. x = None \<Longrightarrow> filter_None xs = []"
  by (induction xs rule: filter_None.induct) simp_all

lemma filter_None_only:
  assumes "i < length xs" "xs ! i = Some v" "\<forall>j<length xs. j \<noteq> i \<longrightarrow> xs ! j = None"
  shows "filter_None xs = [v]"
proof -
  have split: "xs = take i xs @ Some v # drop (Suc i) xs"
    using assms(1,2) id_take_nth_drop [of i xs] by simp
  have a: "filter_None (take i xs) = []"
  proof (rule filter_None_all_None, rule ballI)
    fix x assume "x \<in> set (take i xs)"
    then obtain j where "j < i" "x = xs ! j"
      using assms(1) by (auto simp: in_set_conv_nth)
    with assms(1,3) show "x = None" by simp
  qed
  have b: "filter_None (drop (Suc i) xs) = []"
  proof (rule filter_None_all_None, rule ballI)
    fix x assume "x \<in> set (drop (Suc i) xs)"
    then obtain j where "j < length xs - Suc i" "x = xs ! (Suc i + j)"
      by (auto simp: in_set_conv_nth)
    with assms(3) show "x = None" by simp
  qed
  have "filter_None xs = filter_None (take i xs) @ filter_None (Some v # drop (Suc i) xs)"
    by (subst split) (rule filter_None_append)
  with a b show ?thesis by simp
qed

text \<open>A server that answers 404 everywhere but at one candidate.\<close>

lemma scan_one_populated:
  assumes tr: "py_truthy (LIMIT_OF_ATTEMPTS_TO_RETRY env)"
    and i: "i < length urls" and st: "status \<notin> set ERRORS_STATUS_CODES"
  shows "\<exists>results. create_make_requests env urls
           (\<lambda>j k. if j = i then Response status (JsonOk b) else Response 404 (JsonOk JNull))
           = Some (Inr results)
         \<and> filter_None results = [\<lparr>url = urls ! i, status_code = status, body = b\<rparr>]"
proof -
  let ?net = "\<lambda>j (k::nat). if j = i then Response status (JsonOk b) else Response 404 (JsonOk JNull)"
  let ?R = "\<lambda>j. if j = i then Some \<lparr>url = urls ! i, status_code = status, body = b\<rparr> else None"
  have "\<exists>k d. fetch env (urls ! j) (?net j) 0 = Some (Inr (?R j), k, d)" for j
  proof (cases "j = i")
    case True
    with fetch_populated [OF tr _ st, of "?net j" b "urls ! j" 0] show ?thesis by simp
  next
    case False
    with fetch_terminal [OF tr, of "?net j" 404 "JsonOk JNull" "urls ! j" 0] show ?thesis
      by (simp add: ERRORS_STATUS_CODES_def)
  qed
  from run_tasks_pointwise [of urls env ?net "\<lambda>j. Inr (?R j)", OF this]
  obtain f where "run_tasks env ?net 0 urls 0 = Some (map Inr (map ?R [0..<length urls]), f)"
    by (auto simp: comp_def)
  then have "create_make_requests env urls ?net = Some (Inr (map ?R [0..<length urls]))"
    by (simp add: create_make_requests_def make_requests_def gather_map_Inr_comp)
  moreover have "filter_None (map ?R [0..<length urls])
      = [\<lparr>url = urls ! i, status_code = status, body = b\<rparr>]"
    using i by (intro filter_None_only [of i]) simp_all
  ultimately show ?thesis by blast
qed


lemma scan_one_raises:
  assumes tr: "py_truthy (LIMIT_OF_ATTEMPTS_TO_RETRY env)"
    and i: "i < length urls" and st: "status \<notin> set ERRORS_STATUS_CODES"
    and e: "\<not> caught_by e retry_classes" "\<not> caught_by e abort_classes"
  shows "create_make_requests env urls
           (\<lambda>j k. if j = i then Response status (JsonRaises e) else Response 404 (JsonOk JNull))
           = Some (Inl e)"
proof -
  let ?net = "\<lambda>j (k::nat). if j = i then Response status (JsonRaises e) else Response 404 (JsonOk JNull)"
  let ?R = "\<lambda>j. if j = i then Inl e else Inr None"
  have "\<exists>k d. fetch env (urls ! j) (?net j) 0 = Some (?R j, k, d)" for j
  proof (cases "j = i")
    case True
    with fetch_uncaught [OF tr _ e, of "?net j" "urls ! j" 0] st show ?thesis by simp
  next
    case False
    with fetch_terminal [OF tr, of "?net j" 404 "JsonOk JNull" "urls ! j" 0] show ?thesis
      by (simp add: ERRORS_STATUS_CODES_def)
  qed
  from run_tasks_pointwise [of urls env ?net ?R, OF this]
  obtain f where run: "run_tasks env ?net 0 urls 0 = Some (map ?R [0..<length urls], f)"
    by auto
  have "gather (map ?R [0..<length urls]) = Inl e"
    using i by (intro gather_first_Inl [of i]) auto
  with run show ?thesis
    by (simp add: create_make_requests_def make_requests_def)
qed

lemma third_candidate:
  "targets_to_check ''https://example.com'' ! 2 = ''https://example.com/wp-json/wp/v2/users''"
  by (simp add: targets_to_check_def)

lemma default_budget_truthy: "py_truthy (LIMIT_OF_ATTEMPTS_TO_RETRY Map.empty)"
  by (simp add: LIMIT_OF_ATTEMPTS_TO_RETRY_def)



text \<open>
  Claim C1. An exception that neither \<^verbatim>\<open>except\<close> clause names leaves \<open>_fetch\<close>, and
  \<open>asyncio.gather\<close> passes it on. For the target \<open>https://example.com\<close>, let every
  candidate answer 404 but the third, which answers 200 with a body that is not JSON
  (\<open>response.json()\<close> raises \<open>JSONDecodeError\<close>): \<open>create_make_requests\<close> raises, \<open>main\<close>
  writes no file, and the script logs the exception and ends.
\<close>

theorem undecodable_json_aborts_scan:
  "create_make_requests Map.empty (targets_to_check ''https://example.com'')
     (\<lambda>i k. if i = 2 then Response 200 (JsonRaises JSONDecodeError)
             else Response 404 (JsonOk JNull))
     = Some (Inl JSONDecodeError)
   \<and> run_script Map.empty
       \<lparr>given_domain = Some ''example.com'', given_verbose = False, given_output = None\<rparr>
       (ProbeHeaders True)
       (\<lambda>i k. if i = 2 then Response 200 (JsonRaises JSONDecodeError)
               else Response 404 (JsonOk JNull))
       \<lparr>files = Map.empty, can_open_w = \<lambda>p. True\<rparr>
     = Some \<lparr>exit_code = 0, logged = [JSONDecodeError],
             disk = \<lparr>files = Map.empty, can_open_w = \<lambda>p. True\<rparr>\<rparr>"
proof -
  have scan: "create_make_requests Map.empty (targets_to_check ''https://example.com'')
     (\<lambda>i k. if i = 2 then Response 200 (JsonRaises JSONDecodeError)
             else Response 404 (JsonOk JNull))
     = Some (Inl JSONDecodeError)"
    by (rule scan_one_raises [OF default_budget_truthy])
       (simp_all add: length_targets_to_check ERRORS_STATUS_CODES_def caught_by_def
          retry_classes_def abort_classes_def)
  then show ?thesis
    by (simp add: run_script_def main_def cli_def define_config_from_cmd_def
          probe_target_schema_def)
qed

text \<open>
  Claim C6. The results are written to \<open>Config.RESULT_FILE_NAME\<close>; the value of
  \<open>--output\<close> reaches \<open>RunConfig\<close> and is not read again. With \<open>-d example.com -o out.json\<close>,
  the environment empty and one candidate answering 200, the array with that one object is
  in \<open>results.json\<close>, and there is no \<open>out.json\<close>.
\<close>

theorem output_option_is_ignored:
  "map_option (\<lambda>(r, fs'). (r, files fs' ''out.json'', files fs' ''results.json''))
     (main Map.empty
        \<lparr>given_domain = Some ''example.com'', given_verbose = False,
         given_output = Some ''out.json''\<rparr>
        (ProbeHeaders True)
        (\<lambda>i k. if i = 2
                then Response 200 (JsonOk (JObj [(''id'', JNum 1), (''name'', JStr ''admin'')]))
                else Response 404 (JsonOk JNull))
        \<lparr>files = Map.empty, can_open_w = \<lambda>p. True\<rparr>)
   = Some (Inr (), None,
       Some (JArr [JObj [(''url'', JStr ''https://example.com/wp-json/wp/v2/users''),
                         (''status_code'', JNum 200),
                         (''body'', JObj [(''id'', JNum 1), (''name'', JStr ''admin'')])]]))"
proof -
  from scan_one_populated [OF default_budget_truthy, of 2 "targets_to_check ''https://example.com''"
      200 "JObj [(''id'', JNum 1), (''name'', JStr ''admin'')]"]
  obtain results where
    "create_make_requests Map.empty (targets_to_check ''https://example.com'')
       (\<lambda>i k. if i = 2
               then Response 200 (JsonOk (JObj [(''id'', JNum 1), (''name'', JStr ''admin'')]))
               else Response 404 (JsonOk JNull)) = Some (Inr results)"
    "filter_None results = [\<lparr>url = ''https://example.com/wp-json/wp/v2/users'',
        status_code = 200, body = JObj [(''id'', JNum 1), (''name'', JStr ''admin'')]\<rparr>]"
    by (auto simp: length_targets_to_check ERRORS_STATUS_CODES_def third_candidate)
  then show ?thesis
    by (simp add: main_def cli_def define_config_from_cmd_def probe_target_schema_def
          write_results_to_file_def RESULT_FILE_NAME_def json_dumps_def)
qed

lemma output_never_read:
  "main env (argv\<lparr>given_output := x\<rparr>) probe net fs = main env argv probe net fs"
  by (simp add: main_def cli_def define_config_from_cmd_def Let_def
        split: option.splits sum.splits)







end
